theory Spec2Isabelle
  imports Complex_Main "HOL-Library.Monad_Syntax"
begin

section \<open>Samples: the C type double\<close>

text \<open>
  A sample is a C \<open>double\<close>. The model keeps the special values of IEEE arithmetic
  that the program can produce (a division by zero gives an infinity or a NaN, and a NaN
  compares false with everything) and takes every finite result as the exact real number:
  rounding, overflow of a finite result and the sign of zero are not modelled (a zero
  divisor is taken as \<open>+0.0\<close>, which is what \<open>renormalize\<close> divides by).
\<close>

datatype dbl = Val real | PInf | NInf | NaN

definition inf_of_sign :: "real \<Rightarrow> dbl" where
  "inf_of_sign r = (if r = 0 then NaN else if 0 < r then PInf else NInf)"

fun dneg :: "dbl \<Rightarrow> dbl" where
  "dneg (Val a) = Val (- a)"
| "dneg PInf = NInf"
| "dneg NInf = PInf"
| "dneg NaN = NaN"

fun dadd :: "dbl \<Rightarrow> dbl \<Rightarrow> dbl" where
  "dadd (Val a) (Val b) = Val (a + b)"
| "dadd (Val a) PInf = PInf"
| "dadd (Val a) NInf = NInf"
| "dadd PInf (Val b) = PInf"
| "dadd NInf (Val b) = NInf"
| "dadd PInf PInf = PInf"
| "dadd NInf NInf = NInf"
| "dadd PInf NInf = NaN"
| "dadd NInf PInf = NaN"
| "dadd NaN y = NaN"
| "dadd x NaN = NaN"

definition dsub :: "dbl \<Rightarrow> dbl \<Rightarrow> dbl" where
  "dsub x y = dadd x (dneg y)"

fun dmul :: "dbl \<Rightarrow> dbl \<Rightarrow> dbl" where
  "dmul (Val a) (Val b) = Val (a * b)"
| "dmul (Val a) PInf = inf_of_sign a"
| "dmul (Val a) NInf = inf_of_sign (- a)"
| "dmul PInf (Val b) = inf_of_sign b"
| "dmul NInf (Val b) = inf_of_sign (- b)"
| "dmul PInf PInf = PInf"
| "dmul NInf NInf = PInf"
| "dmul PInf NInf = NInf"
| "dmul NInf PInf = NInf"
| "dmul NaN y = NaN"
| "dmul x NaN = NaN"

fun ddiv :: "dbl \<Rightarrow> dbl \<Rightarrow> dbl" where
  "ddiv (Val a) (Val b) = (if b = 0 then inf_of_sign a else Val (a / b))"
| "ddiv (Val a) PInf = Val 0"
| "ddiv (Val a) NInf = Val 0"
| "ddiv PInf (Val b) = (if b < 0 then NInf else PInf)"
| "ddiv NInf (Val b) = (if b < 0 then PInf else NInf)"
| "ddiv PInf PInf = NaN"
| "ddiv NInf NInf = NaN"
| "ddiv PInf NInf = NaN"
| "ddiv NInf PInf = NaN"
| "ddiv NaN y = NaN"
| "ddiv x NaN = NaN"

fun fabs :: "dbl \<Rightarrow> dbl" where
  "fabs (Val a) = Val \<bar>a\<bar>"
| "fabs PInf = PInf"
| "fabs NInf = PInf"
| "fabs NaN = NaN"

fun dlt :: "dbl \<Rightarrow> dbl \<Rightarrow> bool" where
  "dlt (Val a) (Val b) = (a < b)"
| "dlt (Val a) PInf = True"
| "dlt NInf (Val b) = True"
| "dlt NInf PInf = True"
| "dlt x y = False"

definition of_nat_dbl :: "nat \<Rightarrow> dbl" where
  "of_nat_dbl n = Val (real n)"

definition of_int_dbl :: "int \<Rightarrow> dbl" where
  "of_int_dbl n = Val (real_of_int n)"

text \<open>
  The cast \<open>(int) x\<close> truncates towards zero; it is undefined on an infinity and on a NaN.
  The type \<open>int\<close> of C is modelled by the unbounded integers: the sizes of the buffers are
  taken to fit it.
\<close>

fun to_int :: "dbl \<Rightarrow> int option" where
  "to_int (Val a) = Some (if 0 \<le> a then \<lfloor>a\<rfloor> else \<lceil>a\<rceil>)"
| "to_int x = None"

definition SAMPLERATE :: int where
  "SAMPLERATE = 44100"

section \<open>Buffers: struct sound\<close>

text \<open>
  \<open>data\<close> is the allocated array, so \<open>length (data s)\<close> is its capacity, and \<open>nsamples\<close>
  is the number of valid samples. The program only ever counts \<open>nsamples\<close> up from zero or
  decrements it once per visited sample, so it is a natural number here. An access outside
  the allocated array is undefined behaviour in C: the model returns \<open>None\<close> there.
\<close>

record sound =
  data :: "dbl list"
  nsamples :: nat

definition rd :: "dbl list \<Rightarrow> nat \<Rightarrow> dbl option" where
  "rd xs i = (if i < length xs then Some (xs ! i) else None)"

definition wr :: "dbl list \<Rightarrow> nat \<Rightarrow> dbl \<Rightarrow> dbl list option" where
  "wr xs i v = (if i < length xs then Some (xs[i := v]) else None)"

text \<open>The valid samples of a buffer, and the invariant that they lie in the allocation.\<close>

definition samples :: "sound \<Rightarrow> dbl list" where
  "samples s = take (nsamples s) (data s)"

definition wf_sound :: "sound \<Rightarrow> bool" where
  "wf_sound s = (nsamples s \<le> length (data s))"

text \<open>
  A counting loop \<open>for (i = a; i < b; i++)\<close> runs its body over \<open>[a..<b]\<close>, a loop
  \<open>for (i = n - 1; i >= 0; i--)\<close> over \<open>rev [0..<n]\<close>; the first undefined access ends
  the run.
\<close>

fun for_loop :: "nat list \<Rightarrow> (nat \<Rightarrow> 'a \<Rightarrow> 'a option) \<Rightarrow> 'a \<Rightarrow> 'a option" where
  "for_loop [] body st = Some st"
| "for_loop (i # is) body st =
     (case body i st of None \<Rightarrow> None | Some st' \<Rightarrow> for_loop is body st')"

text \<open>
  \<open>malloc\<close> returns storage of indeterminate content, \<open>alloc_sound\<close> clears it. Each
  function below that calls \<open>malloc\<close> writes a cell before it reads it, so both are
  modelled by a zero-filled array.
\<close>

definition malloc_array :: "nat \<Rightarrow> dbl list" where
  "malloc_array n = replicate n (Val 0)"

definition alloc_sound :: "nat \<Rightarrow> sound" where
  "alloc_sound n = \<lparr>data = replicate n (Val 0), nsamples = 0\<rparr>"

section \<open>Mixing\<close>

definition add_sound_body :: "sound \<Rightarrow> sound \<Rightarrow> nat \<Rightarrow> sound \<Rightarrow> sound option" where
  "add_sound_body s1 s2 i out = do {
     d0 \<leftarrow> wr (data out) i (Val 0);
     d1 \<leftarrow> (if i < nsamples s1
            then do { c \<leftarrow> rd d0 i; a \<leftarrow> rd (data s1) i; wr d0 i (dadd c a) }
            else Some d0);
     d2 \<leftarrow> (if i < nsamples s2
            then do { c \<leftarrow> rd d1 i; b \<leftarrow> rd (data s2) i; wr d1 i (dadd c b) }
            else Some d1);
     Some \<lparr>data = d2, nsamples = nsamples out + 1\<rparr>
   }"

definition add_sound :: "sound \<Rightarrow> sound \<Rightarrow> sound option" where
  "add_sound s1 s2 =
     (let n0 = nsamples s1;
          n = (if nsamples s2 > n0 then nsamples s2 else n0)
      in for_loop [0..<n] (add_sound_body s1 s2) \<lparr>data = malloc_array n, nsamples = 0\<rparr>)"

text \<open>
  The functions that work in place take the buffer and return it updated.
  \<open>accumulate_sound\<close> frees the old array of \<open>acc\<close> and takes over the one of the sum.
\<close>

definition accumulate_sound :: "sound \<Rightarrow> sound \<Rightarrow> sound option" where
  "accumulate_sound acc inc = do {
     t \<leftarrow> add_sound acc inc;
     Some (acc\<lparr>data := data t, nsamples := nsamples t\<rparr>)
   }"

text \<open>
  The call \<open>accumulate_sound(acc, inc)\<close> on a store of buffers, each owning its array:
  \<open>acc\<close> and \<open>inc\<close> are the addresses of two \<open>struct sound\<close>. Only the object at
  \<open>acc\<close> is assigned.
\<close>

type_synonym store = "nat \<rightharpoonup> sound"

definition accumulate_sound_at :: "store \<Rightarrow> nat \<Rightarrow> nat \<Rightarrow> store option" where
  "accumulate_sound_at h acc inc = do {
     a \<leftarrow> h acc;
     b \<leftarrow> h inc;
     a' \<leftarrow> accumulate_sound a b;
     Some (h(acc \<mapsto> a'))
   }"

text \<open>
  The mix as the specification words it: the elementwise sum over the longer of the two
  lengths, a missing sample counting as zero.
\<close>

definition sample_or_zero :: "dbl list \<Rightarrow> nat \<Rightarrow> dbl" where
  "sample_or_zero xs i = (if i < length xs then xs ! i else Val 0)"

definition mix_spec :: "dbl list \<Rightarrow> dbl list \<Rightarrow> dbl list" where
  "mix_spec a b =
     map (\<lambda>i. dadd (sample_or_zero a i) (sample_or_zero b i)) [0..<max (length a) (length b)]"

section \<open>Fade, normalise, delay, trim\<close>

definition fadeout_body :: "int \<Rightarrow> nat \<Rightarrow> sound \<Rightarrow> sound option" where
  "fadeout_body n i s = do {
     let factor = dsub (Val 1.0) (ddiv (of_nat_dbl i) (of_int_dbl n));
     x \<leftarrow> rd (data s) i;
     d \<leftarrow> wr (data s) i (dmul x factor);
     Some (s\<lparr>data := d\<rparr>)
   }"

definition fadeout :: "sound \<Rightarrow> int \<Rightarrow> sound option" where
  "fadeout s n = for_loop [0..<nat n] (fadeout_body n) s"

definition renormalize :: "sound \<Rightarrow> sound option" where
  "renormalize s = do {
     mx \<leftarrow> for_loop [0..<nsamples s]
             (\<lambda>i mx. do { x \<leftarrow> rd (data s) i;
                          Some (if dlt mx (fabs x) then fabs x else mx) })
             (Val 0.0);
     d \<leftarrow> for_loop [0..<nsamples s]
             (\<lambda>i d. do { x \<leftarrow> rd d i; wr d i (ddiv x (dmul (Val 1.001) mx)) })
             (data s);
     Some (s\<lparr>data := d\<rparr>)
   }"

definition delay_effect_body :: "int \<Rightarrow> nat \<Rightarrow> sound \<Rightarrow> sound option" where
  "delay_effect_body delay_samples i s =
     (let source = int i - delay_samples
      in if int (nsamples s) > source
         then (if source > 0
               then do { x \<leftarrow> rd (data s) (nat source);
                         d \<leftarrow> wr (data s) i x;
                         Some (s\<lparr>data := d\<rparr>) }
               else do { d \<leftarrow> wr (data s) i (Val 0.0);
                         Some (s\<lparr>data := d\<rparr>) })
         else Some s)"

definition delay_effect_in_place :: "sound \<Rightarrow> int \<Rightarrow> sound option" where
  "delay_effect_in_place s delay_samples =
     for_loop (rev [0..<nsamples s]) (delay_effect_body delay_samples) s"

definition trim_body :: "nat \<Rightarrow> sound \<Rightarrow> sound option" where
  "trim_body i s = do {
     x \<leftarrow> rd (data s) i;
     Some (if dlt (fabs x) (Val 0.00001) then s\<lparr>nsamples := nsamples s - 1\<rparr> else s)
   }"

definition trim_trailing_silence :: "sound \<Rightarrow> sound option" where
  "trim_trailing_silence s = for_loop (rev [0..<nsamples s]) trim_body s"

section \<open>Low-pass filter\<close>

definition sliding_alpha :: "nat \<Rightarrow> nat \<Rightarrow> dbl \<Rightarrow> dbl \<Rightarrow> dbl" where
  "sliding_alpha i n alpha1 alpha2 =
     (let alpha = dadd (dmul (ddiv (of_nat_dbl i) (of_nat_dbl n)) (dsub alpha2 alpha1)) alpha1
      in dmul alpha alpha)"

definition sliding_low_pass_body :: "sound \<Rightarrow> dbl \<Rightarrow> dbl \<Rightarrow> nat \<Rightarrow> dbl list \<Rightarrow> dbl list option" where
  "sliding_low_pass_body s alpha1 alpha2 i od = do {
     let alpha = sliding_alpha i (nsamples s) alpha1 alpha2;
     prev \<leftarrow> rd od (i - 1);
     x \<leftarrow> rd (data s) i;
     wr od i (dadd prev (dmul alpha (dsub x prev)))
   }"

definition sliding_low_pass :: "sound \<Rightarrow> dbl \<Rightarrow> dbl \<Rightarrow> sound option" where
  "sliding_low_pass s alpha1 alpha2 = do {
     let od = malloc_array (nsamples s);
     x0 \<leftarrow> rd (data s) 0;
     od0 \<leftarrow> wr od 0 x0;
     od' \<leftarrow> for_loop [1..<nsamples s] (sliding_low_pass_body s alpha1 alpha2) od0;
     Some \<lparr>data = od', nsamples = nsamples s\<rparr>
   }"

definition sliding_low_pass_inplace :: "sound \<Rightarrow> dbl \<Rightarrow> dbl \<Rightarrow> sound option" where
  "sliding_low_pass_inplace s alpha1 alpha2 = do {
     out \<leftarrow> sliding_low_pass s alpha1 alpha2;
     Some (s\<lparr>data := data out, nsamples := nsamples out\<rparr>)
   }"

section \<open>Speed change\<close>

definition interpolate :: "dbl \<Rightarrow> dbl \<Rightarrow> dbl \<Rightarrow> dbl \<Rightarrow> dbl \<Rightarrow> dbl" where
  "interpolate x x1 y1 x2 y2 =
     (if dlt (fabs (dsub x2 x1)) (ddiv (dmul (Val 0.01) (Val 1.0)) (of_int_dbl SAMPLERATE))
      then ddiv (dadd y1 y2) (Val 2.0)
      else dadd (ddiv (dmul (dsub x x1) (dsub y2 y1)) (dsub x2 x1)) y1)"

definition sample_point :: "nat \<Rightarrow> nat \<Rightarrow> nat \<Rightarrow> dbl" where
  "sample_point i n old = dmul (ddiv (of_nat_dbl i) (of_nat_dbl n)) (of_nat_dbl old)"

text \<open>
  The two source indices of output sample \<open>i\<close>, as the loop of \<open>change_speed\<close> computes
  them, and the arguments \<open>x, x1, x2\<close> it passes to \<open>interpolate\<close>.
\<close>

definition source_indices :: "nat \<Rightarrow> nat \<Rightarrow> nat \<Rightarrow> (int \<times> int) option" where
  "source_indices i n old = do {
     sp1 \<leftarrow> to_int (sample_point i n old);
     let sp2 = sp1 + 1;
     Some (sp1, sp2)
   }"

definition index_of :: "int \<Rightarrow> nat option" where
  "index_of k = (if 0 \<le> k then Some (nat k) else None)"

definition change_speed_body :: "sound \<Rightarrow> nat \<Rightarrow> nat \<Rightarrow> sound \<Rightarrow> sound option" where
  "change_speed_body s n i out = do {
     (sp1, sp2) \<leftarrow> source_indices i n (nsamples s);
     k1 \<leftarrow> index_of sp1;
     y1 \<leftarrow> rd (data s) k1;
     k2 \<leftarrow> index_of sp2;
     y2 \<leftarrow> rd (data s) k2;
     d \<leftarrow> wr (data out) i
            (interpolate (sample_point i n (nsamples s)) (of_int_dbl sp1) y1 (of_int_dbl sp2) y2);
     Some \<lparr>data = d, nsamples = nsamples out + 1\<rparr>
   }"

text \<open>
  A negative new length makes \<open>alloc_sound\<close> ask for an impossible size; the model stops
  there.
\<close>

definition change_speed :: "sound \<Rightarrow> dbl \<Rightarrow> sound option" where
  "change_speed s factor = do {
     m \<leftarrow> to_int (ddiv (of_nat_dbl (nsamples s)) factor);
     n \<leftarrow> index_of m;
     let out = alloc_sound n;
     x0 \<leftarrow> rd (data s) 0;
     d0 \<leftarrow> wr (data out) 0 x0;
     for_loop [1..<n] (change_speed_body s n) \<lparr>data = d0, nsamples = 1\<rparr>
   }"

definition change_speed_inplace :: "sound \<Rightarrow> dbl \<Rightarrow> sound option" where
  "change_speed_inplace s factor = do {
     out \<leftarrow> change_speed s factor;
     Some (s\<lparr>data := data out, nsamples := nsamples out\<rparr>)
   }"

section \<open>One layer of make_explosion\<close>

text \<open>
  The body of the first loop of \<open>make_explosion\<close>, for layer \<open>i\<close> of \<open>nlayers\<close>, from the
  noise buffer \<open>t0\<close> that \<open>make_noise\<close> returned (its samples are random, so the buffer
  is an argument).
\<close>

definition fade_iters :: "int \<Rightarrow> int" where
  "fade_iters i = (let iters = i + 1 in if iters > 3 then 3 else iters)"

definition lowpass_iters :: "int \<Rightarrow> int" where
  "lowpass_iters i = (let iters = 3 - i in if iters < 0 then 1 else iters)"

definition lowpass_pass :: "dbl \<Rightarrow> dbl \<Rightarrow> sound \<Rightarrow> sound option" where
  "lowpass_pass a1 a2 t = do {
     t' \<leftarrow> sliding_low_pass_inplace t a1 a2;
     renormalize t'
   }"

definition lowpass_stage :: "int \<Rightarrow> int \<Rightarrow> sound \<Rightarrow> sound option" where
  "lowpass_stage nlayers i t =
     (let a1 = ddiv (of_int_dbl (i + 1)) (of_int_dbl nlayers);
          a2 = ddiv (of_int_dbl i) (of_int_dbl nlayers)
      in for_loop [0..<nat (lowpass_iters i)] (\<lambda>j. lowpass_pass a1 a2) t)"

definition explosion_layer :: "int \<Rightarrow> int \<Rightarrow> sound \<Rightarrow> sound option" where
  "explosion_layer nlayers i t0 = do {
     t1 \<leftarrow> (if i > 0 then change_speed_inplace t0 (of_int_dbl (i * 2)) else Some t0);
     t2 \<leftarrow> for_loop [0..<nat (fade_iters i)] (\<lambda>j t. fadeout t (int (nsamples t))) t1;
     lowpass_stage nlayers i t2
   }"

section \<open>Loop invariants\<close>

text \<open>The state of each loop after the iterations below \<open>i\<close>.\<close>

definition lp_inv :: "sound \<Rightarrow> dbl \<Rightarrow> dbl \<Rightarrow> nat \<Rightarrow> dbl list \<Rightarrow> bool" where
  "lp_inv s alpha1 alpha2 i od =
     (length od = nsamples s \<and> od ! 0 = data s ! 0 \<and>
      (\<forall>j. 1 \<le> j \<and> j < i \<longrightarrow>
         od ! j = dadd (od ! (j - 1))
                    (dmul (sliding_alpha j (nsamples s) alpha1 alpha2)
                          (dsub (data s ! j) (od ! (j - 1))))))"

definition fade_inv :: "sound \<Rightarrow> int \<Rightarrow> nat \<Rightarrow> sound \<Rightarrow> bool" where
  "fade_inv s n j t =
     (nsamples t = nsamples s \<and> length (data t) = length (data s) \<and>
      (\<forall>i < length (data s).
         data t ! i = (if i < j then dmul (data s ! i) (Val (1 - real i / real_of_int n))
                       else data s ! i)))"

definition fade_pow_inv :: "sound \<Rightarrow> int \<Rightarrow> nat \<Rightarrow> sound \<Rightarrow> bool" where
  "fade_pow_inv s n k t =
     (nsamples t = nsamples s \<and> length (data t) = length (data s) \<and>
      (\<forall>i < length (data s).
         data t ! i = (if i < nat n then dmul (data s ! i) (Val ((1 - real i / real_of_int n) ^ k))
                       else data s ! i)))"

definition add_inv :: "sound \<Rightarrow> sound \<Rightarrow> nat \<Rightarrow> nat \<Rightarrow> sound \<Rightarrow> bool" where
  "add_inv s1 s2 n i out =
     (nsamples out = i \<and> length (data out) = n \<and>
      (\<forall>j < i. data out ! j =
                dadd (sample_or_zero (samples s1) j) (sample_or_zero (samples s2) j)))"

text \<open>
  The value that the branch of \<open>interpolate\<close> that does not average gives for output
  sample \<open>i\<close> of \<open>n\<close> when its divisor is 1, and the state of the loop of
  \<open>change_speed\<close> after the iterations below \<open>i\<close>.
\<close>

definition linear_sample :: "sound \<Rightarrow> nat \<Rightarrow> nat \<Rightarrow> dbl" where
  "linear_sample s n i =
     (case to_int (sample_point i n (nsamples s)) of
        None \<Rightarrow> NaN
      | Some sp1 \<Rightarrow>
          dadd (ddiv (dmul (dsub (sample_point i n (nsamples s)) (of_int_dbl sp1))
                           (dsub (data s ! nat (sp1 + 1)) (data s ! nat sp1)))
                     (Val 1))
               (data s ! nat sp1))"

definition speed_inv :: "sound \<Rightarrow> nat \<Rightarrow> nat \<Rightarrow> sound \<Rightarrow> bool" where
  "speed_inv s n i out =
     (nsamples out = i \<and> length (data out) = n \<and> data out ! 0 = data s ! 0 \<and>
      (\<forall>j. 1 \<le> j \<and> j < i \<longrightarrow> data out ! j = linear_sample s n j))"

section \<open>Loops\<close>

lemma for_loop_append:
  "for_loop (xs @ ys) body st =
     (case for_loop xs body st of None \<Rightarrow> None | Some st' \<Rightarrow> for_loop ys body st')"
  by (induction xs arbitrary: st) (auto split: option.splits)

text \<open>
  A counting loop whose body keeps an invariant and never faults runs to its end, and the
  invariant holds there.
\<close>

lemma for_loop_upt_invariant:
  assumes init: "P a st"
    and step: "\<And>i t. a \<le> i \<Longrightarrow> i < b \<Longrightarrow> P i t \<Longrightarrow> \<exists>t'. body i t = Some t' \<and> P (Suc i) t'"
    and le: "a \<le> b"
  shows "\<exists>st'. for_loop [a..<b] body st = Some st' \<and> P b st'"
  using le step
proof (induction b rule: dec_induct)
  case base
  show ?case using init by simp
next
  case (step m)
  have "\<exists>st'. for_loop [a..<m] body st = Some st' \<and> P m st'"
    using step.IH step.prems by (meson less_Suc_eq)
  then obtain t where t: "for_loop [a..<m] body st = Some t" "P m t" by blast
  obtain t' where t': "body m t = Some t'" "P (Suc m) t'"
    using step.prems [of m t] step.hyps t(2) by auto
  show ?case using step.hyps t t' by (simp add: for_loop_append)
qed

text \<open>An invariant that every completed iteration keeps holds of the result of the loop.\<close>

lemma for_loop_upt_preserves:
  assumes run: "for_loop [a..<b] body st = Some st'"
    and init: "P a st"
    and step: "\<And>i t t'. a \<le> i \<Longrightarrow> i < b \<Longrightarrow> P i t \<Longrightarrow> body i t = Some t' \<Longrightarrow> P (Suc i) t'"
    and le: "a \<le> b"
  shows "P b st'"
  using le run step
proof (induction b arbitrary: st' rule: dec_induct)
  case base
  then show ?case using init by simp
next
  case (step m)
  obtain t where t: "for_loop [a..<m] body st = Some t" "body m t = Some st'"
    using step.prems(1) step.hyps(1)
    by (auto simp: for_loop_append split: option.splits)
  have "P m t"
    using step.IH [OF t(1)] step.prems(2) by (meson less_Suc_eq)
  then show ?case
    using step.prems(2) [of m t st'] step.hyps t(2) by simp
qed

text \<open>A loop whose last iteration faults in every state has no result.\<close>

lemma for_loop_last_faults:
  assumes "a < b" "\<And>t. body (b - 1) t = None"
  shows "for_loop [a..<b] body st = None"
proof -
  obtain m where m: "b = Suc m" "a \<le> m"
    using assms(1) by (cases b) auto
  show ?thesis
    using assms(2) m by (simp add: for_loop_append split: option.splits)
qed

section \<open>Arithmetic of samples\<close>

lemma dmul_Val_Val: "dmul (dmul x (Val a)) (Val b) = dmul x (Val (a * b))"
  by (cases x) (auto simp: inf_of_sign_def mult_less_0_iff zero_less_mult_iff)

lemma dmul_one: "dmul x (Val 1) = x"
  by (cases x) (auto simp: inf_of_sign_def)

lemma dadd_zero_left: "dadd (Val 0) x = x"
  by (cases x) auto

lemma dadd_zero_right: "dadd x (Val 0) = x"
  by (cases x) auto

lemma fade_factor:
  "n \<noteq> 0 \<Longrightarrow> dsub (Val 1) (ddiv (of_nat_dbl i) (of_int_dbl n)) = Val (1 - real i / real_of_int n)"
  by (simp add: dsub_def of_nat_dbl_def of_int_dbl_def)

text \<open>With finite coefficients the swept coefficient is the square of the linear blend.\<close>

lemma sliding_alpha_Val:
  "n \<noteq> 0 \<Longrightarrow>
   sliding_alpha i n (Val a1) (Val a2) = Val ((real i / real n * (a2 - a1) + a1)\<^sup>2)"
  by (simp add: sliding_alpha_def of_nat_dbl_def dsub_def power2_eq_square)

section \<open>renormalize\<close>

text \<open>
  Claim C1: a buffer whose largest magnitude is 0 is left unchanged by normalising.
  The code has no test for a zero maximum: on the buffer holding the single sample 0.0
  it divides 0.0 by 1.001 * 0.0, and the sample becomes a NaN.
\<close>

theorem renormalize_zero_buffer_nan:
  "renormalize \<lparr>data = [Val 0], nsamples = 1\<rparr> = Some \<lparr>data = [NaN], nsamples = 1\<rparr>"
  by (simp add: renormalize_def rd_def wr_def inf_of_sign_def)

text \<open>Only the empty buffer has no sample to divide.\<close>

lemma renormalize_empty:
  "renormalize \<lparr>data = d, nsamples = 0\<rparr> = Some \<lparr>data = d, nsamples = 0\<rparr>"
  by (simp add: renormalize_def)

section \<open>trim_trailing_silence\<close>

text \<open>
  Claim C2: trimming stops at the first sample from the end that is not silent, and
  silence before it is not counted. The loop of the code has no exit: it visits every
  index and decrements the length at each silent sample. On the two samples 0.0, 1.0 the
  length becomes 1, so the sample 1.0 is cut off because of the silent sample before it.
\<close>

theorem trim_trailing_silence_counts_interior:
  "trim_trailing_silence \<lparr>data = [Val 0, Val 1], nsamples = 2\<rparr>
     = Some \<lparr>data = [Val 0, Val 1], nsamples = 1\<rparr>"
  by (simp add: trim_trailing_silence_def trim_body_def rd_def numeral_2_eq_2)

section \<open>delay_effect_in_place\<close>

text \<open>
  Claim C3: a delay of 0 is the identity, and a delay of the length of the buffer gives
  all zeros. The code copies only from a source index above 0 (\<open>source > 0\<close>), so with
  delay 0 it clears sample 0: the one-sample buffer 1.0 becomes 0.0.
\<close>

theorem delay_zero_clears_first_sample:
  "delay_effect_in_place \<lparr>data = [Val 1], nsamples = 1\<rparr> 0
     = Some \<lparr>data = [Val 0], nsamples = 1\<rparr>"
  by (simp add: delay_effect_in_place_def delay_effect_body_def rd_def wr_def)

text \<open>
  With a delay of the whole length every source index is negative, and the valid samples
  are all cleared.
\<close>

lemma delay_clearing_loop:
  assumes "\<forall>i \<in> set xs. i < n" "nsamples s = n" "n \<le> length (data s)"
  shows "\<exists>t. for_loop xs (delay_effect_body (int n)) s = Some t \<and>
             nsamples t = n \<and> length (data t) = length (data s) \<and>
             (\<forall>i < length (data s). data t ! i = (if i \<in> set xs then Val 0 else data s ! i))"
  using assms
proof (induction xs arbitrary: s)
  case Nil
  then show ?case by simp
next
  case (Cons j xs)
  let ?s = "s\<lparr>data := (data s)[j := Val 0]\<rparr>"
  have j: "j < n" using Cons.prems(1) by simp
  have body: "delay_effect_body (int n) j s = Some ?s"
    using j Cons.prems(2,3) by (simp add: delay_effect_body_def wr_def)
  obtain t where t: "for_loop xs (delay_effect_body (int n)) ?s = Some t" "nsamples t = n"
    "length (data t) = length (data ?s)"
    "\<forall>i < length (data ?s). data t ! i = (if i \<in> set xs then Val 0 else data ?s ! i)"
    using Cons.IH [of ?s] Cons.prems by auto
  show ?case
    using body t by (auto simp: nth_list_update)
qed

lemma delay_full_length_zeroes:
  assumes "wf_sound s"
  shows "\<exists>t. delay_effect_in_place s (int (nsamples s)) = Some t \<and>
             nsamples t = nsamples s \<and> length (data t) = length (data s) \<and>
             (\<forall>i < nsamples s. data t ! i = Val 0)"
  using delay_clearing_loop [of "rev [0..<nsamples s]" "nsamples s" s] assms
  by (auto simp: delay_effect_in_place_def wf_sound_def)

section \<open>make_explosion: the number of filter passes\<close>

text \<open>
  Claim C4: layer \<open>i\<close> gets \<open>max (3 - i) 1\<close> passes of low-pass filter and normalising,
  so at least one. The code raises the count to 1 only when \<open>3 - i\<close> is negative: for
  layer 3 the count is 0, and the filter stage returns the buffer as it got it.
\<close>

theorem lowpass_stage_layer_three_no_pass:
  "lowpass_iters 3 = 0 \<and> lowpass_stage nlayers 3 t = Some t"
  by (simp add: lowpass_iters_def lowpass_stage_def)

text \<open>For every other layer the count is the larger of \<open>3 - i\<close> and 1.\<close>

lemma lowpass_iters_other_layers:
  "i \<noteq> 3 \<Longrightarrow> lowpass_iters i = max (3 - i) 1"
  by (simp add: lowpass_iters_def Let_def)

section \<open>Buffers of length zero\<close>

text \<open>
  Claim C6: on a buffer of length zero every operation does nothing or returns an empty
  buffer, without a fault. In the code \<open>sliding_low_pass\<close> and \<open>change_speed\<close> copy
  sample 0 before their loops, whatever the length: with \<open>nsamples = 0\<close> the destination
  array has no cell 0, for every capacity of the source and every coefficient or factor.
\<close>

theorem zero_length_faults:
  "sliding_low_pass \<lparr>data = d, nsamples = 0\<rparr> alpha1 alpha2 = None \<and>
   change_speed \<lparr>data = d, nsamples = 0\<rparr> factor = None"
proof
  show "sliding_low_pass \<lparr>data = d, nsamples = 0\<rparr> alpha1 alpha2 = None"
    by (simp add: sliding_low_pass_def malloc_array_def wr_def split: Option.bind_splits)
  show "change_speed \<lparr>data = d, nsamples = 0\<rparr> factor = None"
    by (cases factor)
       (simp_all add: change_speed_def alloc_sound_def wr_def of_nat_dbl_def index_of_def
          inf_of_sign_def split: Option.bind_splits)
qed

section \<open>sliding_low_pass\<close>

lemma lp_step:
  assumes "wf_sound s" "1 \<le> i" "i < nsamples s" "lp_inv s alpha1 alpha2 i od"
  shows "\<exists>od'. sliding_low_pass_body s alpha1 alpha2 i od = Some od' \<and>
                lp_inv s alpha1 alpha2 (Suc i) od'"
proof -
  let ?v = "dadd (od ! (i - 1))
              (dmul (sliding_alpha i (nsamples s) alpha1 alpha2) (dsub (data s ! i) (od ! (i - 1))))"
  have len: "length od = nsamples s" using assms(4) by (simp add: lp_inv_def)
  have cap: "i < length (data s)" using assms(1,3) by (simp add: wf_sound_def)
  have body: "sliding_low_pass_body s alpha1 alpha2 i od = Some (od[i := ?v])"
    using len cap assms(2,3) by (simp add: sliding_low_pass_body_def rd_def wr_def)
  have "lp_inv s alpha1 alpha2 (Suc i) (od[i := ?v])"
    unfolding lp_inv_def
  proof (intro conjI allI impI)
    show "length (od[i := ?v]) = nsamples s" using len by simp
    show "od[i := ?v] ! 0 = data s ! 0" using assms(2,4) by (simp add: lp_inv_def)
  next
    fix j assume j: "1 \<le> j \<and> j < Suc i"
    show "od[i := ?v] ! j = dadd (od[i := ?v] ! (j - 1))
            (dmul (sliding_alpha j (nsamples s) alpha1 alpha2)
                  (dsub (data s ! j) (od[i := ?v] ! (j - 1))))"
    proof (cases "j = i")
      case True
      then show ?thesis using len assms(2,3) by simp
    next
      case False
      then have "j < i" using j by simp
      then show ?thesis using assms(4) j by (simp add: lp_inv_def)
    qed
  qed
  then show ?thesis using body by simp
qed

lemma sliding_low_pass_inv:
  assumes "1 \<le> nsamples s" "wf_sound s"
  shows "\<exists>od. sliding_low_pass s alpha1 alpha2 = Some \<lparr>data = od, nsamples = nsamples s\<rparr> \<and>
               lp_inv s alpha1 alpha2 (nsamples s) od"
proof -
  let ?od0 = "(malloc_array (nsamples s))[0 := data s ! 0]"
  have r0: "rd (data s) 0 = Some (data s ! 0)"
    using assms by (cases "data s") (auto simp: rd_def wf_sound_def)
  have w0: "wr (malloc_array (nsamples s)) 0 (data s ! 0) = Some ?od0"
    using assms by (simp add: wr_def malloc_array_def)
  have init: "lp_inv s alpha1 alpha2 1 ?od0"
    using assms by (simp add: lp_inv_def malloc_array_def)
  have "\<exists>od. for_loop [1..<nsamples s] (sliding_low_pass_body s alpha1 alpha2) ?od0 = Some od
              \<and> lp_inv s alpha1 alpha2 (nsamples s) od"
    by (rule for_loop_upt_invariant [where P = "lp_inv s alpha1 alpha2"])
       (use init assms lp_step in auto)
  then show ?thesis using r0 w0 by (auto simp: sliding_low_pass_def)
qed

text \<open>
  Claim C7: on a buffer of \<open>n \<ge> 1\<close> valid samples (lying in its allocation) the filter
  returns a new buffer of the same length with \<open>out[0] = in[0]\<close> and
  \<open>out[i] = out[i-1] + alpha_eff(i) * (in[i] - out[i-1])\<close> for \<open>1 \<le> i < n\<close>, where
  \<open>alpha_eff(i)\<close> is the square of \<open>(i/n) * (alpha2 - alpha1) + alpha1\<close>.
\<close>

theorem sliding_low_pass_recurrence:
  assumes "1 \<le> nsamples s" and "wf_sound s"
  shows "\<exists>out. sliding_low_pass s alpha1 alpha2 = Some out \<and>
           nsamples out = nsamples s \<and> length (data out) = nsamples s \<and>
           data out ! 0 = data s ! 0 \<and>
           (\<forall>i. 1 \<le> i \<and> i < nsamples s \<longrightarrow>
              data out ! i =
                dadd (data out ! (i - 1))
                  (dmul (let a = dadd (dmul (ddiv (Val (real i)) (Val (real (nsamples s))))
                                            (dsub alpha2 alpha1)) alpha1
                         in dmul a a)
                        (dsub (data s ! i) (data out ! (i - 1)))))"
proof -
  obtain od where od:
    "sliding_low_pass s alpha1 alpha2 = Some \<lparr>data = od, nsamples = nsamples s\<rparr>"
    "lp_inv s alpha1 alpha2 (nsamples s) od"
    using sliding_low_pass_inv [OF assms] by blast
  show ?thesis
    using od by (simp add: lp_inv_def sliding_alpha_def of_nat_dbl_def)
qed

theorem sliding_low_pass_recurrence_witness:
  "1 \<le> nsamples \<lparr>data = [Val 1, Val 3], nsamples = 2\<rparr> \<and>
   wf_sound \<lparr>data = [Val 1, Val 3], nsamples = 2\<rparr> \<and>
   sliding_low_pass \<lparr>data = [Val 1, Val 3], nsamples = 2\<rparr> (Val 1) (Val 0)
     = Some \<lparr>data = [Val 1, Val (3/2)], nsamples = 2\<rparr>"
  using sliding_low_pass_recurrence [of "\<lparr>data = [Val 1, Val 3], nsamples = 2\<rparr>" "Val 1" "Val 0"]
  by (simp add: wf_sound_def sliding_low_pass_def sliding_low_pass_body_def rd_def wr_def
      malloc_array_def sliding_alpha_def of_nat_dbl_def dsub_def numeral_2_eq_2)

section \<open>fadeout\<close>

lemma fadeout_step:
  assumes "0 < n" "j < nat n" "nat n \<le> length (data s)" "fade_inv s n j t"
  shows "\<exists>t'. fadeout_body n j t = Some t' \<and> fade_inv s n (Suc j) t'"
proof -
  let ?f = "Val (1 - real j / real_of_int n)"
  have len: "length (data t) = length (data s)" and jl: "j < length (data s)"
    using assms by (simp_all add: fade_inv_def)
  have tj: "data t ! j = data s ! j"
    using assms(4) jl by (simp add: fade_inv_def)
  have body: "fadeout_body n j t = Some (t\<lparr>data := (data t)[j := dmul (data s ! j) ?f]\<rparr>)"
    using assms(1) len jl tj by (simp add: fadeout_body_def fade_factor rd_def wr_def)
  have "fade_inv s n (Suc j) (t\<lparr>data := (data t)[j := dmul (data s ! j) ?f]\<rparr>)"
    using assms(4) len by (auto simp: fade_inv_def nth_list_update less_Suc_eq)
  then show ?thesis using body by simp
qed

lemma fadeout_once:
  assumes "0 < n" "nat n \<le> length (data s)"
  shows "\<exists>t. fadeout s n = Some t \<and> fade_inv s n (nat n) t"
  unfolding fadeout_def
  by (rule for_loop_upt_invariant [where P = "fade_inv s n"])
     (use assms fadeout_step in \<open>auto simp: fade_inv_def\<close>)

lemma fadeout_pow_step:
  assumes "0 < n" "nat n \<le> length (data s)" "fade_pow_inv s n k t"
  shows "\<exists>t'. fadeout t n = Some t' \<and> fade_pow_inv s n (Suc k) t'"
proof -
  have len: "length (data t) = length (data s)"
    using assms(3) by (simp add: fade_pow_inv_def)
  obtain t' where t': "fadeout t n = Some t'" "fade_inv t n (nat n) t'"
    using fadeout_once [of n t] assms(1,2) len by auto
  have "fade_pow_inv s n (Suc k) t'"
    using t'(2) assms(3) len
    by (auto simp: fade_pow_inv_def fade_inv_def dmul_Val_Val mult.commute)
  then show ?thesis using t'(1) by simp
qed

text \<open>
  Claim C8: fading the prefix of \<open>n \<ge> 1\<close> samples of a buffer \<open>k\<close> times (the prefix
  lying in the buffer) multiplies sample \<open>i < n\<close> by \<open>(1 - i/n)^k\<close> and leaves the samples
  from \<open>n\<close> on as they were; for \<open>k = 1\<close> the factor is \<open>1 - i/n\<close>, which is 1 at sample 0.
\<close>

theorem fadeout_compounds:
  assumes "1 \<le> n" and "n \<le> length (data s)"
  shows "\<exists>t. for_loop [0..<k] (\<lambda>j t. fadeout t (int n)) s = Some t \<and>
           nsamples t = nsamples s \<and> length (data t) = length (data s) \<and>
           (\<forall>i < n. data t ! i = dmul (data s ! i) (Val ((1 - real i / real n) ^ k))) \<and>
           (\<forall>i. n \<le> i \<and> i < length (data s) \<longrightarrow> data t ! i = data s ! i)"
proof -
  have "\<exists>t. for_loop [0..<k] (\<lambda>j t. fadeout t (int n)) s = Some t \<and> fade_pow_inv s (int n) k t"
    by (rule for_loop_upt_invariant [where P = "fade_pow_inv s (int n)"])
       (use assms fadeout_pow_step [of "int n" s] in \<open>auto simp: fade_pow_inv_def dmul_one\<close>)
  then show ?thesis using assms by (auto simp: fade_pow_inv_def)
qed

theorem fadeout_compounds_witness:
  "(1::nat) \<le> 2 \<and> 2 \<le> length (data \<lparr>data = [Val 8, Val 8, Val 8], nsamples = 3\<rparr>) \<and>
   for_loop [0..<2] (\<lambda>j t. fadeout t (int 2)) \<lparr>data = [Val 8, Val 8, Val 8], nsamples = 3\<rparr>
     = Some \<lparr>data = [Val 8, Val 2, Val 8], nsamples = 3\<rparr>"
  using fadeout_compounds [of 2 "\<lparr>data = [Val 8, Val 8, Val 8], nsamples = 3\<rparr>" 2]
  by (simp add: fadeout_def fadeout_body_def rd_def wr_def dsub_def of_nat_dbl_def
      of_int_dbl_def numeral_2_eq_2)

section \<open>add_sound and accumulate_sound\<close>

lemma sample_or_zero_samples:
  "wf_sound s \<Longrightarrow>
   sample_or_zero (samples s) i = (if i < nsamples s then data s ! i else Val 0)"
  by (simp add: sample_or_zero_def samples_def wf_sound_def)

lemma add_sound_step:
  assumes "wf_sound s1" "wf_sound s2" "i < n" "n = max (nsamples s1) (nsamples s2)"
    and "add_inv s1 s2 n i out"
  shows "\<exists>out'. add_sound_body s1 s2 i out = Some out' \<and> add_inv s1 s2 n (Suc i) out'"
proof -
  let ?v = "dadd (sample_or_zero (samples s1) i) (sample_or_zero (samples s2) i)"
  have len: "length (data out) = n" and ns: "nsamples out = i"
    using assms(5) by (simp_all add: add_inv_def)
  have c1: "i < nsamples s1 \<Longrightarrow> i < length (data s1)"
    and c2: "i < nsamples s2 \<Longrightarrow> i < length (data s2)"
    using assms(1,2) by (simp_all add: wf_sound_def)
  have body: "add_sound_body s1 s2 i out = Some \<lparr>data = (data out)[i := ?v], nsamples = Suc i\<rparr>"
    using len ns assms(1-4) c1 c2
    by (simp add: add_sound_body_def rd_def wr_def sample_or_zero_samples
        dadd_zero_left dadd_zero_right)
  have "add_inv s1 s2 n (Suc i) \<lparr>data = (data out)[i := ?v], nsamples = Suc i\<rparr>"
    using assms(3,5) by (auto simp: add_inv_def nth_list_update less_Suc_eq)
  then show ?thesis using body by simp
qed

text \<open>The sum that the code builds is the mix of the specification.\<close>

lemma add_sound_mix:
  assumes "wf_sound s1" "wf_sound s2"
  shows "add_sound s1 s2 =
           Some \<lparr>data = mix_spec (samples s1) (samples s2),
                 nsamples = max (nsamples s1) (nsamples s2)\<rparr>"
proof -
  let ?n = "max (nsamples s1) (nsamples s2)"
  have n: "(if nsamples s2 > nsamples s1 then nsamples s2 else nsamples s1) = ?n"
    by (simp add: max_def)
  have "\<exists>out. for_loop [0..<?n] (add_sound_body s1 s2) \<lparr>data = malloc_array ?n, nsamples = 0\<rparr>
                 = Some out \<and> add_inv s1 s2 ?n ?n out"
    by (rule for_loop_upt_invariant [where P = "add_inv s1 s2 ?n"])
       (use assms add_sound_step in \<open>auto simp: add_inv_def malloc_array_def\<close>)
  then obtain out where out:
    "for_loop [0..<?n] (add_sound_body s1 s2) \<lparr>data = malloc_array ?n, nsamples = 0\<rparr> = Some out"
    "add_inv s1 s2 ?n ?n out" by blast
  have lens: "length (samples s1) = nsamples s1" "length (samples s2) = nsamples s2"
    using assms by (simp_all add: samples_def wf_sound_def)
  have "data out = mix_spec (samples s1) (samples s2)"
    using out(2) lens by (intro nth_equalityI) (simp_all add: add_inv_def mix_spec_def)
  moreover have "nsamples out = ?n" using out(2) by (simp add: add_inv_def)
  ultimately have "out = \<lparr>data = mix_spec (samples s1) (samples s2), nsamples = ?n\<rparr>"
    by simp
  then show ?thesis using out(1) n by (simp add: add_sound_def Let_def)
qed

text \<open>
  Claim C9: for two buffers \<open>acc\<close> and \<open>inc\<close> (two objects of the store, their valid
  samples lying in their allocations), after \<open>accumulate_sound(acc, inc)\<close> the buffer
  \<open>acc\<close> holds the mix of its old samples with those of \<open>inc\<close>, of the longer of the two
  lengths, and \<open>inc\<close>, like every object other than \<open>acc\<close>, is as it was.
\<close>

theorem accumulate_sound_frame:
  assumes "h acc = Some a" and "h inc = Some b" and "acc \<noteq> inc"
    and "wf_sound a" and "wf_sound b"
  shows "\<exists>h' a'. accumulate_sound_at h acc inc = Some h' \<and> h' acc = Some a' \<and>
           data a' = mix_spec (samples a) (samples b) \<and>
           nsamples a' = max (nsamples a) (nsamples b) \<and>
           nsamples a' = length (data a') \<and>
           h' inc = Some b \<and> (\<forall>p. p \<noteq> acc \<longrightarrow> h' p = h p)"
proof -
  have lens: "length (samples a) = nsamples a" "length (samples b) = nsamples b"
    using assms(4,5) by (simp_all add: samples_def wf_sound_def)
  show ?thesis
    using assms(1-3) lens
    by (simp add: accumulate_sound_at_def accumulate_sound_def add_sound_mix [OF assms(4,5)]
        mix_spec_def)
qed

theorem accumulate_sound_frame_witness:
  "[(0::nat) \<mapsto> \<lparr>data = [Val 1, Val 2, Val 9], nsamples = 2\<rparr>,
    1 \<mapsto> \<lparr>data = [Val 5], nsamples = 1\<rparr>] 0
      = Some \<lparr>data = [Val 1, Val 2, Val 9], nsamples = 2\<rparr> \<and>
   [(0::nat) \<mapsto> \<lparr>data = [Val 1, Val 2, Val 9], nsamples = 2\<rparr>,
    1 \<mapsto> \<lparr>data = [Val 5], nsamples = 1\<rparr>] 1
      = Some \<lparr>data = [Val 5], nsamples = 1\<rparr> \<and>
   (0::nat) \<noteq> 1 \<and> wf_sound \<lparr>data = [Val 1, Val 2, Val 9], nsamples = 2\<rparr> \<and>
   wf_sound \<lparr>data = [Val 5], nsamples = 1\<rparr> \<and>
   accumulate_sound_at
     [(0::nat) \<mapsto> \<lparr>data = [Val 1, Val 2, Val 9], nsamples = 2\<rparr>,
      1 \<mapsto> \<lparr>data = [Val 5], nsamples = 1\<rparr>] 0 1
     = Some [(0::nat) \<mapsto> \<lparr>data = [Val 6, Val 2], nsamples = 2\<rparr>,
             1 \<mapsto> \<lparr>data = [Val 5], nsamples = 1\<rparr>]"
  using accumulate_sound_frame
    [of "[(0::nat) \<mapsto> \<lparr>data = [Val 1, Val 2, Val 9], nsamples = 2\<rparr>,
          1 \<mapsto> \<lparr>data = [Val 5], nsamples = 1\<rparr>]"
        0 "\<lparr>data = [Val 1, Val 2, Val 9], nsamples = 2\<rparr>" 1 "\<lparr>data = [Val 5], nsamples = 1\<rparr>"]
  by (auto simp: wf_sound_def accumulate_sound_at_def accumulate_sound_def add_sound_def
      add_sound_body_def rd_def wr_def malloc_array_def numeral_2_eq_2 fun_upd_twist)

section \<open>change_speed: what each iteration writes\<close>

text \<open>
  The x-coordinates that the loop passes to \<open>interpolate\<close> are an integer and its
  successor, so the test for a negligible span fails and the divisor is 1.
\<close>

lemma interpolate_unit:
  "interpolate x (of_int_dbl sp1) y1 (of_int_dbl (sp1 + 1)) y2
     = dadd (ddiv (dmul (dsub x (of_int_dbl sp1)) (dsub y2 y1)) (Val 1)) y1"
proof -
  have d: "dsub (of_int_dbl (sp1 + 1)) (of_int_dbl sp1) = Val 1"
    by (simp add: dsub_def of_int_dbl_def)
  show ?thesis
    by (simp add: interpolate_def d) (simp add: of_int_dbl_def SAMPLERATE_def)
qed

lemma change_speed_body_linear:
  "change_speed_body s n i out = do {
     (sp1, sp2) \<leftarrow> source_indices i n (nsamples s);
     k1 \<leftarrow> index_of sp1;
     y1 \<leftarrow> rd (data s) k1;
     k2 \<leftarrow> index_of sp2;
     y2 \<leftarrow> rd (data s) k2;
     d \<leftarrow> wr (data out) i
            (dadd (ddiv (dmul (dsub (sample_point i n (nsamples s)) (of_int_dbl sp1))
                              (dsub y2 y1))
                        (Val 1))
                  y1);
     Some \<lparr>data = d, nsamples = nsamples out + 1\<rparr>
   }"
  by (cases "to_int (sample_point i n (nsamples s))")
     (simp_all add: change_speed_body_def source_indices_def interpolate_unit)

lemma change_speed_body_value:
  assumes "change_speed_body s n i out = Some out'"
  shows "out' = \<lparr>data = (data out)[i := linear_sample s n i], nsamples = nsamples out + 1\<rparr>
         \<and> i < length (data out)"
  using assms
  by (auto simp: change_speed_body_linear source_indices_def linear_sample_def index_of_def
      rd_def wr_def split: Option.bind_splits if_splits)

lemma speed_inv_step:
  assumes "1 \<le> i" "speed_inv s n i out" "change_speed_body s n i out = Some out'"
  shows "speed_inv s n (Suc i) out'"
  using change_speed_body_value [OF assms(3)] assms(1,2)
  by (auto simp: speed_inv_def nth_list_update less_Suc_eq)

text \<open>Every sample of a result of \<open>change_speed\<close> after the first is such a value.\<close>

lemma change_speed_result:
  assumes "change_speed s factor = Some out"
  shows "1 \<le> nsamples out \<and> speed_inv s (nsamples out) (nsamples out) out"
proof -
  obtain m n x0 d0 where
    m: "to_int (ddiv (of_nat_dbl (nsamples s)) factor) = Some m" "index_of m = Some n"
    and x0: "rd (data s) 0 = Some x0" and d0: "wr (data (alloc_sound n)) 0 x0 = Some d0"
    and run: "for_loop [1..<n] (change_speed_body s n) \<lparr>data = d0, nsamples = 1\<rparr> = Some out"
    using assms by (auto simp: change_speed_def split: Option.bind_splits)
  have n: "1 \<le> n" and d0': "d0 = (replicate n (Val 0))[0 := x0]" and x0': "x0 = data s ! 0"
    using d0 x0 by (auto simp: wr_def rd_def alloc_sound_def split: if_splits)
  have init: "speed_inv s n 1 \<lparr>data = d0, nsamples = 1\<rparr>"
    using n d0' x0' by (simp add: speed_inv_def)
  have "speed_inv s n n out"
    by (rule for_loop_upt_preserves [OF run, where P = "speed_inv s n"])
       (use init n speed_inv_step in auto)
  then show ?thesis using n by (simp add: speed_inv_def)
qed

text \<open>
  Each source index that an iteration computes is a valid one, so with a cell allocated
  after the valid samples no iteration faults.
\<close>

lemma sample_point_floor:
  assumes "i < n" "1 \<le> old"
  shows "\<exists>sp1. to_int (sample_point i n old) = Some sp1 \<and> 0 \<le> sp1 \<and> sp1 < int old"
proof -
  let ?x = "real i / real n * real old"
  have n0: "0 < real n" using assms(1) by simp
  have "real i * real old < real n * real old"
    using assms by simp
  then have lt: "?x < real old"
    using n0 by (simp add: pos_divide_less_eq mult.commute)
  have ge: "0 \<le> ?x" by simp
  have "\<lfloor>?x\<rfloor> < int old" using lt by (simp add: floor_less_iff)
  moreover have "0 \<le> \<lfloor>?x\<rfloor>" using ge by simp
  ultimately show ?thesis
    using ge n0 by (simp add: sample_point_def of_nat_dbl_def)
qed

lemma change_speed_body_total:
  assumes "i < n" "1 \<le> nsamples s" "nsamples s < length (data s)" "length (data out) = n"
  shows "\<exists>out'. change_speed_body s n i out = Some out'"
proof -
  obtain sp1 where sp1: "to_int (sample_point i n (nsamples s)) = Some sp1" "0 \<le> sp1"
    "sp1 < int (nsamples s)"
    using sample_point_floor [OF assms(1,2)] by blast
  have "nat sp1 < length (data s)" "nat (sp1 + 1) < length (data s)"
    using sp1(2,3) assms(3) by linarith+
  then show ?thesis
    using sp1 assms(1,4)
    by (simp add: change_speed_body_def source_indices_def index_of_def rd_def wr_def)
qed

lemma speed_inv_step_total:
  assumes "1 \<le> i" "i < n" "1 \<le> nsamples s" "nsamples s < length (data s)"
    and "speed_inv s n i out"
  shows "\<exists>out'. change_speed_body s n i out = Some out' \<and> speed_inv s n (Suc i) out'"
proof -
  have "length (data out) = n" using assms(5) by (simp add: speed_inv_def)
  then obtain out' where "change_speed_body s n i out = Some out'"
    using change_speed_body_total [OF assms(2,3,4)] by blast
  then show ?thesis using speed_inv_step [OF assms(1,5)] by blast
qed

lemma change_speed_spare_cell:
  assumes m: "to_int (ddiv (of_nat_dbl (nsamples s)) factor) = Some (int n)"
    and "1 \<le> n" "1 \<le> nsamples s" "nsamples s < length (data s)"
  shows "\<exists>out. change_speed s factor = Some out \<and> speed_inv s n n out"
proof -
  let ?d0 = "(replicate n (Val 0))[0 := data s ! 0]"
  have x0: "rd (data s) 0 = Some (data s ! 0)"
    using assms(3,4) by (cases "data s") (auto simp: rd_def)
  have d0: "wr (data (alloc_sound n)) 0 (data s ! 0) = Some ?d0"
    using assms(2) by (simp add: wr_def alloc_sound_def)
  have init: "speed_inv s n 1 \<lparr>data = ?d0, nsamples = 1\<rparr>"
    using assms(2) by (simp add: speed_inv_def)
  have "\<exists>out. for_loop [1..<n] (change_speed_body s n) \<lparr>data = ?d0, nsamples = 1\<rparr> = Some out
              \<and> speed_inv s n n out"
    by (rule for_loop_upt_invariant [where P = "speed_inv s n"])
       (use init assms speed_inv_step_total in auto)
  then show ?thesis
    using m x0 d0 by (auto simp: change_speed_def index_of_def)
qed

section \<open>change_speed: the last output sample\<close>

lemma last_sample_point:
  assumes "2 \<le> n" "1 \<le> old" "old \<le> n"
  shows "to_int (sample_point (n - 1) n old) = Some (int old - 1)"
proof -
  let ?x = "real (n - 1) / real n * real old"
  have n0: "0 < real n" using assms(1) by simp
  have x: "?x = real old - real old / real n"
    using assms(1) by (simp add: of_nat_diff field_simps)
  have q: "0 < real old / real n" "real old / real n \<le> 1"
    using assms n0 by simp_all
  have nonneg: "0 \<le> ?x" by simp
  have "\<lfloor>?x\<rfloor> = int old - 1"
  proof (rule floor_unique)
    show "of_int (int old - 1) \<le> ?x" using x q by simp
    show "?x < of_int (int old - 1) + 1" using x q by simp
  qed
  then show ?thesis
    using assms(1) nonneg by (simp add: sample_point_def of_nat_dbl_def)
qed

lemma last_source_indices:
  assumes "2 \<le> n" "1 \<le> old" "old \<le> n"
  shows "source_indices (n - 1) n old = Some (int old - 1, int old)"
  using last_sample_point [OF assms] by (simp add: source_indices_def)

lemma change_speed_body_last:
  assumes "source_indices i n (nsamples s) = Some (int (nsamples s) - 1, int (nsamples s))"
    and "length (data s) = nsamples s"
  shows "change_speed_body s n i out = None"
  using assms by (simp add: change_speed_body_def index_of_def rd_def)

text \<open>
  The last iteration succeeds exactly when cell \<open>nsamples s\<close> of the source is
  allocated, and then writes the value interpolated from that cell.
\<close>

lemma change_speed_body_last_read:
  assumes "2 \<le> n" "1 \<le> nsamples s" "nsamples s \<le> n" "length (data out) = n"
  shows "change_speed_body s n (n - 1) out =
           (case rd (data s) (nsamples s) of
              None \<Rightarrow> None
            | Some y2 \<Rightarrow>
                Some \<lparr>data = (data out)[n - 1 :=
                               interpolate (sample_point (n - 1) n (nsamples s))
                                 (of_int_dbl (int (nsamples s) - 1)) (data s ! (nsamples s - 1))
                                 (of_int_dbl (int (nsamples s))) y2],
                      nsamples = nsamples out + 1\<rparr>)"
proof -
  have si: "source_indices (n - 1) n (nsamples s) = Some (int (nsamples s) - 1, int (nsamples s))"
    using last_source_indices [OF assms(1,2,3)] .
  have k: "nat (int (nsamples s) - 1) = nsamples s - 1" by simp
  show ?thesis
  proof (cases "nsamples s < length (data s)")
    case True
    then show ?thesis
      using si assms(1,2,4) k
      by (simp add: change_speed_body_def index_of_def rd_def wr_def)
  next
    case False
    then show ?thesis
      using si assms(2) k
      by (simp add: change_speed_body_def index_of_def rd_def split: Option.bind_splits)
  qed
qed

lemma linear_sample_last:
  assumes "2 \<le> n" "1 \<le> nsamples s" "nsamples s \<le> n"
  shows "linear_sample s n (n - 1) =
           interpolate (sample_point (n - 1) n (nsamples s))
             (of_int_dbl (int (nsamples s) - 1)) (data s ! (nsamples s - 1))
             (of_int_dbl (int (nsamples s))) (data s ! nsamples s)"
proof -
  have "nat (int (nsamples s) - 1) = nsamples s - 1" by simp
  then show ?thesis
    using last_sample_point [OF assms] interpolate_unit [of _ "int (nsamples s) - 1"]
    by (simp add: linear_sample_def)
qed

text \<open>
  Whenever the new length is at least 2 and not below the old one, the last iteration
  reads index \<open>nsamples s\<close>; on a buffer allocated for just its samples the read is
  outside the array.
\<close>

lemma change_speed_faults:
  assumes m: "to_int (ddiv (of_nat_dbl (nsamples s)) factor) = Some (int n)"
    and "2 \<le> n" "1 \<le> nsamples s" "nsamples s \<le> n" "length (data s) = nsamples s"
  shows "change_speed s factor = None"
proof -
  have "for_loop [1..<n] (change_speed_body s n) t = None" for t
    by (rule for_loop_last_faults)
       (use assms last_source_indices change_speed_body_last in auto)
  then show ?thesis
    using m by (simp add: change_speed_def index_of_def split: Option.bind_splits)
qed

lemma new_length_slower:
  assumes "0 < f" "f \<le> 1"
  shows "to_int (ddiv (of_nat_dbl old) (Val f)) = Some (int (nat \<lfloor>real old / f\<rfloor>))"
    and "old \<le> nat \<lfloor>real old / f\<rfloor>"
proof -
  have "real old \<le> real old / f"
    using assms by (simp add: pos_le_divide_eq mult_left_le)
  then have "int old \<le> \<lfloor>real old / f\<rfloor>" by (simp add: le_floor_iff)
  then show "old \<le> nat \<lfloor>real old / f\<rfloor>" by simp
  show "to_int (ddiv (of_nat_dbl old) (Val f)) = Some (int (nat \<lfloor>real old / f\<rfloor>))"
    using assms by (simp add: of_nat_dbl_def)
qed

text \<open>
  Claim C5: for some buffer and factor, in particular for factors below 1, the
  interpolation for the last output sample reads the source at \<open>sp2 = nsamples\<close>, one
  past the last valid index. This holds for every buffer of at least two samples and
  every factor \<open>0 < f \<le> 1\<close>. With \<open>n\<close> the new length, iteration \<open>n - 1\<close> computes
  \<open>sp1 = nsamples - 1\<close> and \<open>sp2 = nsamples\<close>, and its result is decided by the read of
  cell \<open>nsamples\<close> of the source: no result when that cell is not allocated, otherwise
  the value interpolated between cells \<open>nsamples - 1\<close> and \<open>nsamples\<close>. So
  \<open>change_speed\<close> is undefined when the array holds just the valid samples, and with
  a spare cell it returns \<open>n\<close> samples, the last one computed from the cell past the
  valid samples.
\<close>

theorem change_speed_last_read_past_end:
  assumes "0 < f" and "f \<le> 1" and "2 \<le> nsamples s"
  shows "\<exists>n. to_int (ddiv (of_nat_dbl (nsamples s)) (Val f)) = Some (int n) \<and>
              nsamples s \<le> n \<and>
              source_indices (n - 1) n (nsamples s)
                = Some (int (nsamples s) - 1, int (nsamples s)) \<and>
              (\<forall>out. length (data out) = n \<longrightarrow>
                 change_speed_body s n (n - 1) out =
                   (case rd (data s) (nsamples s) of
                      None \<Rightarrow> None
                    | Some y2 \<Rightarrow>
                        Some \<lparr>data = (data out)[n - 1 :=
                                 interpolate (sample_point (n - 1) n (nsamples s))
                                   (of_int_dbl (int (nsamples s) - 1))
                                   (data s ! (nsamples s - 1))
                                   (of_int_dbl (int (nsamples s))) y2],
                              nsamples = nsamples out + 1\<rparr>)) \<and>
              (length (data s) = nsamples s \<longrightarrow> change_speed s (Val f) = None) \<and>
              (nsamples s < length (data s) \<longrightarrow>
                 (\<exists>res. change_speed s (Val f) = Some res \<and> nsamples res = n \<and>
                    length (data res) = n \<and>
                    data res ! (n - 1) =
                      interpolate (sample_point (n - 1) n (nsamples s))
                        (of_int_dbl (int (nsamples s) - 1)) (data s ! (nsamples s - 1))
                        (of_int_dbl (int (nsamples s))) (data s ! nsamples s)))"
proof -
  let ?n = "nat \<lfloor>real (nsamples s) / f\<rfloor>"
  have n: "to_int (ddiv (of_nat_dbl (nsamples s)) (Val f)) = Some (int ?n)" "nsamples s \<le> ?n"
    using new_length_slower [OF assms(1,2)] by blast+
  have n2: "2 \<le> ?n" using n(2) assms(3) by linarith
  have old1: "1 \<le> nsamples s" using assms(3) by simp
  have si: "source_indices (?n - 1) ?n (nsamples s) = Some (int (nsamples s) - 1, int (nsamples s))"
    using last_source_indices [OF n2 old1 n(2)] .
  have body: "\<forall>out. length (data out) = ?n \<longrightarrow>
                 change_speed_body s ?n (?n - 1) out =
                   (case rd (data s) (nsamples s) of
                      None \<Rightarrow> None
                    | Some y2 \<Rightarrow>
                        Some \<lparr>data = (data out)[?n - 1 :=
                                 interpolate (sample_point (?n - 1) ?n (nsamples s))
                                   (of_int_dbl (int (nsamples s) - 1))
                                   (data s ! (nsamples s - 1))
                                   (of_int_dbl (int (nsamples s))) y2],
                              nsamples = nsamples out + 1\<rparr>)"
    using change_speed_body_last_read [OF n2 old1 n(2)] by blast
  have tight: "length (data s) = nsamples s \<longrightarrow> change_speed s (Val f) = None"
    using change_speed_faults [OF n(1) n2 old1 n(2)] by simp
  have spare: "nsamples s < length (data s) \<longrightarrow>
                 (\<exists>res. change_speed s (Val f) = Some res \<and> nsamples res = ?n \<and>
                    length (data res) = ?n \<and>
                    data res ! (?n - 1) =
                      interpolate (sample_point (?n - 1) ?n (nsamples s))
                        (of_int_dbl (int (nsamples s) - 1)) (data s ! (nsamples s - 1))
                        (of_int_dbl (int (nsamples s))) (data s ! nsamples s))"
  proof
    assume cap: "nsamples s < length (data s)"
    have "1 \<le> ?n" using n2 by simp
    then obtain res where res: "change_speed s (Val f) = Some res" "speed_inv s ?n ?n res"
      using change_speed_spare_cell [OF n(1) _ old1 cap] by blast
    have "1 \<le> ?n - 1 \<and> ?n - 1 < ?n" using n2 by linarith
    then have "data res ! (?n - 1) = linear_sample s ?n (?n - 1)"
      using res(2) unfolding speed_inv_def by blast
    then show "\<exists>res. change_speed s (Val f) = Some res \<and> nsamples res = ?n \<and>
                    length (data res) = ?n \<and>
                    data res ! (?n - 1) =
                      interpolate (sample_point (?n - 1) ?n (nsamples s))
                        (of_int_dbl (int (nsamples s) - 1)) (data s ! (nsamples s - 1))
                        (of_int_dbl (int (nsamples s))) (data s ! nsamples s)"
      using res linear_sample_last [OF n2 old1 n(2)] by (simp add: speed_inv_def)
  qed
  show ?thesis
    using n si body tight spare by blast
qed

theorem change_speed_last_read_past_end_witness:
  "(0::real) < 1/2 \<and> (1/2::real) \<le> 1 \<and>
   2 \<le> nsamples \<lparr>data = [Val 1, Val 2, Val 10], nsamples = 2\<rparr> \<and>
   nsamples \<lparr>data = [Val 1, Val 2, Val 10], nsamples = 2\<rparr>
     < length (data \<lparr>data = [Val 1, Val 2, Val 10], nsamples = 2\<rparr>) \<and>
   length (data \<lparr>data = [Val 1, Val 2], nsamples = 2\<rparr>)
     = nsamples \<lparr>data = [Val 1, Val 2], nsamples = 2\<rparr> \<and>
   to_int (ddiv (of_nat_dbl (nsamples \<lparr>data = [Val 1, Val 2, Val 10], nsamples = 2\<rparr>))
                (Val (1/2))) = Some 4 \<and>
   source_indices 3 4 2 = Some (1, 2) \<and>
   change_speed \<lparr>data = [Val 1, Val 2, Val 10], nsamples = 2\<rparr> (Val (1/2))
     = Some \<lparr>data = [Val 1, Val (3/2), Val 2, Val 6], nsamples = 4\<rparr> \<and>
   interpolate (sample_point 3 4 2) (of_int_dbl 1) (Val 2) (of_int_dbl 2) (Val 10) = Val 6 \<and>
   change_speed \<lparr>data = [Val 1, Val 2], nsamples = 2\<rparr> (Val (1/2)) = None"
  using change_speed_last_read_past_end
          [of "1/2" "\<lparr>data = [Val 1, Val 2, Val 10], nsamples = 2\<rparr>"]
        change_speed_last_read_past_end
          [of "1/2" "\<lparr>data = [Val 1, Val 2], nsamples = 2\<rparr>"]
  by (simp add: change_speed_def change_speed_body_def source_indices_def sample_point_def
      interpolate_def index_of_def rd_def wr_def alloc_sound_def of_nat_dbl_def of_int_dbl_def
      dsub_def SAMPLERATE_def upt_rec eval_nat_numeral)

section \<open>interpolate as change_speed calls it\<close>

text \<open>
  Claim C10: in every call of \<open>interpolate\<close> from \<open>change_speed\<close> the two x-coordinates
  are \<open>sp1\<close> and \<open>sp2 = sp1 + 1\<close>, so \<open>x2 - x1\<close> is exactly 1, which is not below the
  threshold \<open>0.01 / 44100\<close>: the branch that averages is not taken and the divisor of the
  other branch is 1. Stated on the code: every iteration of the loop of \<open>change_speed\<close>
  is the same iteration with the call of \<open>interpolate\<close> replaced by
  \<open>(x - x1) * (y2 - y1) / 1 + y1\<close>; every sample after the first of a result of
  \<open>change_speed\<close> is that value; and for each pair of indices that the loop computes
  the span is 1 and the test of \<open>interpolate\<close> is false.
\<close>

theorem interpolate_unit_spacing:
  "change_speed_body s n i out = do {
     (sp1, sp2) \<leftarrow> source_indices i n (nsamples s);
     k1 \<leftarrow> index_of sp1;
     y1 \<leftarrow> rd (data s) k1;
     k2 \<leftarrow> index_of sp2;
     y2 \<leftarrow> rd (data s) k2;
     d \<leftarrow> wr (data out) i
            (dadd (ddiv (dmul (dsub (sample_point i n (nsamples s)) (of_int_dbl sp1))
                              (dsub y2 y1))
                        (Val 1))
                  y1);
     Some \<lparr>data = d, nsamples = nsamples out + 1\<rparr>
   } \<and>
   (change_speed s factor = Some res \<longrightarrow>
      (\<forall>j. 1 \<le> j \<and> j < nsamples res \<longrightarrow>
         data res ! j = linear_sample s (nsamples res) j)) \<and>
   (source_indices i n old = Some (sp1, sp2) \<longrightarrow>
      dsub (of_int_dbl sp2) (of_int_dbl sp1) = Val 1 \<and>
      \<not> dlt (fabs (dsub (of_int_dbl sp2) (of_int_dbl sp1)))
             (ddiv (dmul (Val 0.01) (Val 1.0)) (of_int_dbl SAMPLERATE)) \<and>
      interpolate x (of_int_dbl sp1) y1 (of_int_dbl sp2) y2
        = dadd (ddiv (dmul (dsub x (of_int_dbl sp1)) (dsub y2 y1)) (Val 1)) y1)"
proof (intro conjI impI)
  show "change_speed_body s n i out = do {
     (sp1, sp2) \<leftarrow> source_indices i n (nsamples s);
     k1 \<leftarrow> index_of sp1;
     y1 \<leftarrow> rd (data s) k1;
     k2 \<leftarrow> index_of sp2;
     y2 \<leftarrow> rd (data s) k2;
     d \<leftarrow> wr (data out) i
            (dadd (ddiv (dmul (dsub (sample_point i n (nsamples s)) (of_int_dbl sp1))
                              (dsub y2 y1))
                        (Val 1))
                  y1);
     Some \<lparr>data = d, nsamples = nsamples out + 1\<rparr>
   }"
    by (rule change_speed_body_linear)
next
  assume "change_speed s factor = Some res"
  then show "\<forall>j. 1 \<le> j \<and> j < nsamples res \<longrightarrow> data res ! j = linear_sample s (nsamples res) j"
    using change_speed_result by (simp add: speed_inv_def)
next
  assume a: "source_indices i n old = Some (sp1, sp2)"
  then have sp2: "sp2 = sp1 + 1"
    by (auto simp: source_indices_def split: Option.bind_splits)
  show "dsub (of_int_dbl sp2) (of_int_dbl sp1) = Val 1"
    by (simp add: sp2 dsub_def of_int_dbl_def)
  then show "\<not> dlt (fabs (dsub (of_int_dbl sp2) (of_int_dbl sp1)))
             (ddiv (dmul (Val 0.01) (Val 1.0)) (of_int_dbl SAMPLERATE))"
    by (simp add: of_int_dbl_def SAMPLERATE_def)
  show "interpolate x (of_int_dbl sp1) y1 (of_int_dbl sp2) y2
        = dadd (ddiv (dmul (dsub x (of_int_dbl sp1)) (dsub y2 y1)) (Val 1)) y1"
    unfolding sp2 by (rule interpolate_unit)
qed

theorem interpolate_unit_spacing_witness:
  "change_speed \<lparr>data = [Val 4, Val 8, Val 0], nsamples = 2\<rparr> (Val (2/3))
     = Some \<lparr>data = [Val 4, Val (20/3), Val (16/3)], nsamples = 3\<rparr> \<and>
   linear_sample \<lparr>data = [Val 4, Val 8, Val 0], nsamples = 2\<rparr> 3 1 = Val (20/3) \<and>
   linear_sample \<lparr>data = [Val 4, Val 8, Val 0], nsamples = 2\<rparr> 3 2 = Val (16/3) \<and>
   source_indices 2 3 2 = Some (1, 2) \<and>
   dsub (of_int_dbl 2) (of_int_dbl 1) = Val 1 \<and>
   interpolate (Val (4/3)) (of_int_dbl 1) (Val 8) (of_int_dbl 2) (Val 0) = Val (16/3)"
  using interpolate_unit_spacing
          [of "\<lparr>data = [Val 4, Val 8, Val 0], nsamples = 2\<rparr>" 3 2
              "\<lparr>data = [Val 4, Val (20/3), Val 0], nsamples = 2\<rparr>" "Val (2/3)"
              "\<lparr>data = [Val 4, Val (20/3), Val (16/3)], nsamples = 3\<rparr>" 2 1 2
              "Val (4/3)" "Val 8" "Val 0"]
  by (simp add: change_speed_def change_speed_body_def source_indices_def sample_point_def
      linear_sample_def interpolate_def index_of_def rd_def wr_def alloc_sound_def
      of_nat_dbl_def of_int_dbl_def dsub_def SAMPLERATE_def upt_rec eval_nat_numeral)

end
